theory Spec2Isabelle
  imports Main
begin

section \<open>The DOM query capability\<close>

text \<open>
  The form reads its document through goquery. A selection is an ordered sequence of
  element nodes; an element has a tag, its attributes in document order and its children.
\<close>

datatype Node = Node (tag: string) (attr: "(string \<times> string) list") (children: "Node list")

type_synonym Selection = "Node list"

text \<open>
  \<^verbatim>\<open>Selection.Attr(name)\<close> returns the value of the attribute of the first element of the
  selection, together with a presence flag, and \<^verbatim>\<open>("", false)\<close> on an empty selection or a
  missing attribute. The pair is an option here: the callers read the value only when the
  flag is set.
\<close>

definition Attr :: "string \<Rightarrow> Selection \<Rightarrow> string option" where
  "Attr attrName s = (case s of [] \<Rightarrow> None | n # _ \<Rightarrow> map_of (attr n) attrName)"

text \<open>
  \<^verbatim>\<open>Selection.Each(f)\<close> calls \<open>f\<close> with the position and the one-element selection of
  each element, in order. The callback's writes to the variables it captures are the
  accumulator.
\<close>

definition Each :: "(nat \<Rightarrow> Selection \<Rightarrow> 'a \<Rightarrow> 'a) \<Rightarrow> Selection \<Rightarrow> 'a \<Rightarrow> 'a" where
  "Each f s = fold (\<lambda>(i, n). f i [n]) (enumerate 0 s)"

text \<open>
  \<^verbatim>\<open>Selection.Find(expr)\<close>, the selector engine, is outside the repository: every
  operation that queries the document takes it as the argument \<open>sel_Find\<close>.
\<close>

type_synonym Query = "string \<Rightarrow> Selection \<Rightarrow> Selection"

section \<open>Multi-valued mappings\<close>

text \<open>
  \<^verbatim>\<open>url.Values\<close> is a Go map from a name to a slice of strings. Reading a missing key gives
  the empty slice; \<^verbatim>\<open>Add\<close> appends to the slice of a key and \<^verbatim>\<open>Set\<close> replaces it with a
  one-element slice.
\<close>

type_synonym Values = "string \<rightharpoonup> string list"

definition Values_Add :: "string \<Rightarrow> string \<Rightarrow> Values \<Rightarrow> Values" where
  "Values_Add key val v = v(key \<mapsto> (case v key of None \<Rightarrow> [] | Some vs \<Rightarrow> vs) @ [val])"

definition Values_Set :: "string \<Rightarrow> string \<Rightarrow> Values \<Rightarrow> Values" where
  "Values_Set key val v = v(key \<mapsto> [val])"

definition len :: "Values \<Rightarrow> nat" where
  "len m = card (dom m)"

text \<open>
  Go leaves the order in which \<^verbatim>\<open>range\<close> visits a map open, and it may differ from one
  loop to the next. Each loop over a map therefore takes the sequence of entries it visits
  as an argument; \<open>range_of m kvs\<close> says that \<open>kvs\<close> is such a sequence for \<open>m\<close>: every entry
  of the map exactly once.
\<close>

type_synonym Iteration = "(string \<times> string list) list"

definition range_of :: "Values \<Rightarrow> Iteration \<Rightarrow> bool" where
  "range_of m kvs = (distinct (map fst kvs) \<and> map_of kvs = m)"

section \<open>Strings\<close>

text \<open>
  A Go string is a sequence of bytes. \<^verbatim>\<open>strings.ToUpper\<close> maps an ASCII-only string byte by
  byte (returning it as it is when it has no lower-case letter) and hands any other string
  to the Unicode mapping, which is the argument \<open>unicode_upper\<close>.
\<close>

definition isASCII :: "string \<Rightarrow> bool" where
  "isASCII s = list_all (\<lambda>c. of_char c < (128::nat)) s"

definition hasLower :: "string \<Rightarrow> bool" where
  "hasLower s = list_ex (\<lambda>c. (97::nat) \<le> of_char c \<and> of_char c \<le> (122::nat)) s"

definition upper_byte :: "char \<Rightarrow> char" where
  "upper_byte c =
     (if (97::nat) \<le> of_char c \<and> of_char c \<le> (122::nat) then char_of (of_char c - (32::nat))
      else c)"

definition ToUpper :: "(string \<Rightarrow> string) \<Rightarrow> string \<Rightarrow> string" where
  "ToUpper unicode_upper s =
     (if isASCII s then (if \<not> hasLower s then s else map upper_byte s)
      else unicode_upper s)"

text \<open>
  \<^verbatim>\<open>fmt.Sprintf\<close> with one argument, for formats whose only verb is \<^verbatim>\<open>%s\<close>: the first
  verb is replaced by the argument.
\<close>

fun Sprintf :: "string \<Rightarrow> string \<Rightarrow> string" where
  "Sprintf [] a = []"
| "Sprintf (c # rest) a =
     (if c = CHR ''%'' \<and> take 1 rest = ''s'' then a @ drop 1 rest else c # Sprintf rest a)"

section \<open>Errors and events\<close>

text \<open>
  Modelled from the spec: the package \<^verbatim>\<open>errors\<close> of the repository is not among the
  sources. The error surface has two kinds of its own, field not found and invalid button,
  each with a message for the reader; an error the submission sink returns is opaque.
\<close>

datatype error = ElementNotFound string | InvalidFormValue string | SinkError string

text \<open>
  Modelled from the spec: \<^verbatim>\<open>errors.NewElementNotFound\<close> makes the error of the kind it
  names, whose message is the format with the argument filled in.
\<close>

definition NewElementNotFound :: "string \<Rightarrow> string \<Rightarrow> error" where
  "NewElementNotFound msg a = ElementNotFound (Sprintf msg a)"

text \<open>
  Modelled from the spec: \<^verbatim>\<open>errors.NewInvalidFormValue\<close> makes the error of the kind it
  names, whose message is the format with the argument filled in.
\<close>

definition NewInvalidFormValue :: "string \<Rightarrow> string \<Rightarrow> error" where
  "NewInvalidFormValue msg a = InvalidFormValue (Sprintf msg a)"

text \<open>Indexing a slice out of range stops the program.\<close>

datatype runtime_panic = IndexOutOfRange

text \<open>
  Modelled from the spec: the package \<^verbatim>\<open>event\<close> of the repository is not among the
  sources. A submission is handed to the dispatcher as an event of kind submit.
\<close>

datatype Event = event_Submit

section \<open>The form\<close>

text \<open>
  The struct \<^verbatim>\<open>Form\<close>. The field \<^verbatim>\<open>fields\<close> is \<open>fields'\<close> here. The embedded dispatcher
  is not a field of the record: what it does with a submission is the argument \<open>Do\<close> of
  the operations that submit (see below).
\<close>

record 'u Form =
  selection :: Selection
  "method" :: string
  action :: "'u option"
  fields' :: Values
  buttons :: Values

text \<open>
  Modelled from the spec: \<^verbatim>\<open>Dispatcher.Do\<close> hands the event kind, the form and the payload
  to the submission sink, synchronously, and returns the error the sink reports, if any.
  The sink is outside this module; it changes a world \<open>'w\<close> of its own and is given the
  form to read. What a handler could do to the form through the reference it receives is
  not an operation of this module and is not modelled.
\<close>

type_synonym ('u, 'w) Dispatch = "Event \<Rightarrow> 'u Form \<Rightarrow> Values \<Rightarrow> 'w \<Rightarrow> error option \<times> 'w"

subsection \<open>Construction\<close>

text \<open>
  Modelled from the spec: the helper \<^verbatim>\<open>attrOrDefault\<close> of the package is not among the
  sources. It returns the value of the attribute when the element has it and the default
  otherwise.
\<close>

definition attrOrDefault :: "string \<Rightarrow> string \<Rightarrow> Selection \<Rightarrow> string" where
  "attrOrDefault name def s = (case Attr name s of Some a \<Rightarrow> a | None \<Rightarrow> def)"

text \<open>
  The callback that \<^verbatim>\<open>serializeForm\<close> runs on each scanned element; the pair is the two
  mappings it captures.
\<close>

definition serializeForm_each :: "nat \<Rightarrow> Selection \<Rightarrow> Values \<times> Values \<Rightarrow> Values \<times> Values" where
  "serializeForm_each i s = (\<lambda>(fields, buttons).
     case Attr ''name'' s of
       None \<Rightarrow> (fields, buttons)
     | Some name \<Rightarrow>
         (case Attr ''type'' s of
            None \<Rightarrow> (fields, buttons)
          | Some typ \<Rightarrow>
              if typ = ''submit'' then
                (case Attr ''value'' s of
                   Some val \<Rightarrow> (fields, Values_Add name val buttons)
                 | None \<Rightarrow> (fields, Values_Add name '''' buttons))
              else
                (case Attr ''value'' s of
                   Some val \<Rightarrow> (Values_Add name val fields, buttons)
                 | None \<Rightarrow> (fields, buttons))))"

definition serializeForm :: "Query \<Rightarrow> Selection \<Rightarrow> Values \<times> Values" where
  "serializeForm sel_Find sel =
     (let input = sel_Find ''input,button'' sel in
      if length input = 0 then (Map.empty, Map.empty)
      else Each serializeForm_each input (Map.empty, Map.empty))"

text \<open>
  \<^verbatim>\<open>url.Parse\<close> is the argument \<open>Parse\<close>; it gives no URL when it reports an error, and
  \<^verbatim>\<open>formAttributes\<close> drops the error.
\<close>

definition formAttributes ::
  "(string \<Rightarrow> string) \<Rightarrow> (string \<Rightarrow> 'u option) \<Rightarrow> Selection \<Rightarrow> string \<times> 'u option" where
  "formAttributes unicode_upper Parse s =
     (let method = ToUpper unicode_upper (attrOrDefault ''method'' ''GET'' s);
          action = Parse (attrOrDefault ''action'' '''' s)
      in (method, action))"

definition NewForm ::
  "Query \<Rightarrow> (string \<Rightarrow> string) \<Rightarrow> (string \<Rightarrow> 'u option) \<Rightarrow> Selection \<Rightarrow> 'u Form" where
  "NewForm sel_Find unicode_upper Parse sel =
     (let (fields, buttons) = serializeForm sel_Find sel;
          (method, action) = formAttributes unicode_upper Parse sel
      in \<lparr>selection = sel, method = method, action = action, fields' = fields,
          buttons = buttons\<rparr>)"

subsection \<open>Operations\<close>

definition Method :: "'u Form \<Rightarrow> string" where
  "Method f = method f"

definition Action :: "'u Form \<Rightarrow> 'u option" where
  "Action f = action f"

text \<open>\<^verbatim>\<open>Input\<close> is the one operation that writes to the form: it returns the form it leaves.\<close>

definition Input :: "string \<Rightarrow> string \<Rightarrow> 'u Form \<Rightarrow> error option \<times> 'u Form" where
  "Input name val f =
     (if fields' f name \<noteq> None then (None, f\<lparr>fields' := Values_Set name val (fields' f)\<rparr>)
      else (Some (NewElementNotFound (''No input found with name '' @ [CHR 0x27] @ ''%s''
              @ [CHR 0x27] @ ''.'') name), f))"

text \<open>
  \<^verbatim>\<open>send\<close> copies the entries of \<^verbatim>\<open>fields\<close> into a fresh mapping, in the order \<open>frange\<close> of
  its loop, sets the button's entry when the button name is not empty and hands the
  payload to the dispatcher. It assigns to nothing of the form.
\<close>

definition send ::
  "('u, 'w) Dispatch \<Rightarrow> Iteration \<Rightarrow> string \<Rightarrow> string \<Rightarrow> 'u Form \<Rightarrow> 'w \<Rightarrow> error option \<times> 'w" where
  "send Do frange buttonName buttonValue f w =
     (let values = fold (\<lambda>(name, vals) values. values(name \<mapsto> vals)) frange Map.empty;
          values = (if buttonName \<noteq> '''' then Values_Set buttonName buttonValue values
                    else values)
      in Do event_Submit f values w)"

text \<open>
  \<^verbatim>\<open>Click\<close> reads element 0 of the button's values: on an empty slice the program panics
  before anything is sent.
\<close>

definition Click ::
  "('u, 'w) Dispatch \<Rightarrow> Iteration \<Rightarrow> string \<Rightarrow> 'u Form \<Rightarrow> 'w
     \<Rightarrow> runtime_panic + (error option \<times> 'w)" where
  "Click Do frange button f w =
     (case buttons f button of
        None \<Rightarrow>
          Inr (Some (NewInvalidFormValue (''Form does not contain a button with the name ''
                 @ [CHR 0x27] @ ''%s'' @ [CHR 0x27] @ ''.'') button), w)
      | Some vs \<Rightarrow>
          (case vs of
             [] \<Rightarrow> Inl IndexOutOfRange
           | v # _ \<Rightarrow> Inr (send Do frange button v f w)))"

text \<open>
  \<^verbatim>\<open>Submit\<close> returns from the first round of its loop over \<^verbatim>\<open>buttons\<close>, whose order is
  \<open>brange\<close>; a loop of no round falls through to the submission without a button.
\<close>

definition Submit ::
  "('u, 'w) Dispatch \<Rightarrow> Iteration \<Rightarrow> Iteration \<Rightarrow> 'u Form \<Rightarrow> 'w
     \<Rightarrow> runtime_panic + (error option \<times> 'w)" where
  "Submit Do brange frange f w =
     (if len (buttons f) > 0 then
        (case brange of
           (name, _) # _ \<Rightarrow> Click Do frange name f w
         | [] \<Rightarrow> Inr (send Do frange '''' '''' f w))
      else Inr (send Do frange '''' '''' f w))"

definition Form_Find :: "Query \<Rightarrow> string \<Rightarrow> 'u Form \<Rightarrow> Selection" where
  "Form_Find sel_Find expr f = sel_Find expr (selection f)"

subsection \<open>Sequences of calls\<close>

text \<open>
  A caller's use of a form is a sequence of calls of its methods. A call of a submitting
  method carries the orders of the map loops it runs. A step returns what the call
  returned, the form and the sink's world after it; a panic ends the run.
\<close>

datatype Call =
    CallMethod
  | CallAction
  | CallFind string
  | CallInput string string
  | CallClick Iteration string
  | CallSubmit Iteration Iteration

datatype 'u Ret =
    RetString string
  | RetURL "'u option"
  | RetSelection Selection
  | RetError "error option"

fun step ::
  "Query \<Rightarrow> ('u, 'w) Dispatch \<Rightarrow> Call \<Rightarrow> 'u Form \<times> 'w
     \<Rightarrow> runtime_panic + ('u Ret \<times> 'u Form \<times> 'w)" where
  "step sel_Find Do CallMethod (f, w) = Inr (RetString (Method f), f, w)"
| "step sel_Find Do CallAction (f, w) = Inr (RetURL (Action f), f, w)"
| "step sel_Find Do (CallFind expr) (f, w) = Inr (RetSelection (Form_Find sel_Find expr f), f, w)"
| "step sel_Find Do (CallInput name val) (f, w) =
     (case Input name val f of (e, f') \<Rightarrow> Inr (RetError e, f', w))"
| "step sel_Find Do (CallClick frange button) (f, w) =
     (case Click Do frange button f w of
        Inl p \<Rightarrow> Inl p
      | Inr (e, w') \<Rightarrow> Inr (RetError e, f, w'))"
| "step sel_Find Do (CallSubmit brange frange) (f, w) =
     (case Submit Do brange frange f w of
        Inl p \<Rightarrow> Inl p
      | Inr (e, w') \<Rightarrow> Inr (RetError e, f, w'))"

fun run ::
  "Query \<Rightarrow> ('u, 'w) Dispatch \<Rightarrow> Call list \<Rightarrow> 'u Form \<times> 'w
     \<Rightarrow> runtime_panic + ('u Ret list \<times> 'u Form \<times> 'w)" where
  "run sel_Find Do [] s = Inr ([], s)"
| "run sel_Find Do (c # cs) s =
     (case step sel_Find Do c s of
        Inl p \<Rightarrow> Inl p
      | Inr (r, s') \<Rightarrow>
          (case run sel_Find Do cs s' of
             Inl p \<Rightarrow> Inl p
           | Inr (rs, s'') \<Rightarrow> Inr (r # rs, s'')))"

fun is_Input :: "Call \<Rightarrow> bool" where
  "is_Input (CallInput name val) = True"
| "is_Input c = False"

section \<open>The properties in the specification's words\<close>

text \<open>
  The values the specification gives a name after construction, read off the scanned
  elements in document order: for a button name, the value (or the empty string) of every
  submit-type element of that name; for a field name, the value of every element of that
  name that has a type other than submit and a value. A name with no value is no key.
\<close>

definition spec_button_values :: "Selection \<Rightarrow> string \<Rightarrow> string list" where
  "spec_button_values input name =
     map (\<lambda>n. case Attr ''value'' [n] of Some v \<Rightarrow> v | None \<Rightarrow> '''')
       (filter (\<lambda>n. Attr ''name'' [n] = Some name \<and> Attr ''type'' [n] = Some ''submit'') input)"

definition spec_field_values :: "Selection \<Rightarrow> string \<Rightarrow> string list" where
  "spec_field_values input name =
     List.map_filter (\<lambda>n. Attr ''value'' [n])
       (filter (\<lambda>n. Attr ''name'' [n] = Some name \<and> Attr ''type'' [n] \<noteq> None
                    \<and> Attr ''type'' [n] \<noteq> Some ''submit'') input)"

definition spec_entry :: "string list \<Rightarrow> string list option" where
  "spec_entry vs = (if vs = [] then None else Some vs)"

text \<open>No key of the mapping has an empty list of values.\<close>

definition nonempty_values :: "Values \<Rightarrow> bool" where
  "nonempty_values m = (\<forall>k. m k \<noteq> Some [])"

text \<open>The calls that only read: \<^verbatim>\<open>Method\<close>, \<^verbatim>\<open>Action\<close> and \<^verbatim>\<open>Find\<close>.\<close>

fun is_accessor :: "Call \<Rightarrow> bool" where
  "is_accessor CallMethod = True"
| "is_accessor CallAction = True"
| "is_accessor (CallFind expr) = True"
| "is_accessor c = False"

section \<open>Example documents\<close>

text \<open>
  A small selector engine for the examples: it understands the one selector that the
  construction of a form uses, the elements below the selection with one of two tags, in
  document order.
\<close>

fun descendants :: "Node \<Rightarrow> Node list" where
  "descendants (Node t a cs) = concat (map (\<lambda>c. c # descendants c) cs)"

definition tag_query :: Query where
  "tag_query expr sel =
     (if expr = ''input,button''
      then filter (\<lambda>n. tag n = ''input'' \<or> tag n = ''button'') (concat (map descendants sel))
      else [])"

text \<open>
  A login form: a text field, two check boxes of one name, an element with a name and no
  type, and one submit button.
\<close>

definition login_dom :: Node where
  "login_dom =
     Node ''form'' [(''method'', ''post''), (''action'', ''/login'')]
       [Node ''input'' [(''name'', ''user''), (''type'', ''text''), (''value'', ''joe'')] [],
        Node ''p'' []
          [Node ''input'' [(''name'', ''tag''), (''type'', ''checkbox''), (''value'', ''a'')] [],
           Node ''input'' [(''name'', ''tag''), (''type'', ''checkbox''), (''value'', ''b'')] []],
        Node ''input'' [(''name'', ''note''), (''value'', ''n'')] [],
        Node ''input'' [(''name'', ''go''), (''type'', ''submit''), (''value'', ''1'')] []]"

definition login_form :: "string Form" where
  "login_form = NewForm tag_query id Some [login_dom]"

text \<open>A search form with no method attribute and no button.\<close>

definition search_dom :: Node where
  "search_dom =
     Node ''form'' [(''action'', ''/search'')]
       [Node ''input'' [(''name'', ''q''), (''type'', ''text''), (''value'', '''')] []]"

definition search_form :: "string Form" where
  "search_form = NewForm tag_query id Some [search_dom]"

text \<open>
  A form whose submit button has an empty name, and one whose two buttons share a name,
  the second without a value.
\<close>

definition anon_dom :: Node where
  "anon_dom =
     Node ''form'' []
       [Node ''input'' [(''name'', ''q''), (''type'', ''text''), (''value'', ''k'')] [],
        Node ''input'' [(''name'', ''''), (''type'', ''submit''), (''value'', ''x'')] []]"

definition anon_form :: "string Form" where
  "anon_form = NewForm tag_query id Some [anon_dom]"

definition vote_dom :: Node where
  "vote_dom =
     Node ''form'' [(''method'', ''Put'')]
       [Node ''button'' [(''name'', ''v''), (''type'', ''submit''), (''value'', ''yes'')] [],
        Node ''button'' [(''name'', ''v''), (''type'', ''submit'')] [],
        Node ''input'' [(''name'', ''who''), (''type'', ''SUBMIT''), (''value'', ''me'')] []]"

text \<open>A sink that records the payloads it is handed and reports no error.\<close>

definition recorder :: "(string, Values list) Dispatch" where
  "recorder e f payload w = (None, w @ [payload])"

section \<open>The examples, evaluated\<close>

lemma no_lower_upper: "\<not> hasLower s \<Longrightarrow> map upper_byte s = s"
  by (induction s) (auto simp: hasLower_def upper_byte_def)

lemma ToUpper_ASCII: "isASCII s \<Longrightarrow> ToUpper u s = map upper_byte s"
  by (simp add: ToUpper_def no_lower_upper)

lemma ToUpper_GET: "ToUpper u ''GET'' = ''GET''"
  by (simp add: ToUpper_def isASCII_def hasLower_def)

lemma upper_post: "map upper_byte ''post'' = ''POST''"
  by code_simp

lemma ToUpper_post: "ToUpper u ''post'' = ''POST''"
proof -
  have a: "isASCII ''post''" by (simp add: isASCII_def)
  show ?thesis by (simp only: ToUpper_ASCII [OF a] upper_post)
qed

lemma tag_query_login:
  "tag_query ''input,button'' [login_dom] =
     [Node ''input'' [(''name'', ''user''), (''type'', ''text''), (''value'', ''joe'')] [],
      Node ''input'' [(''name'', ''tag''), (''type'', ''checkbox''), (''value'', ''a'')] [],
      Node ''input'' [(''name'', ''tag''), (''type'', ''checkbox''), (''value'', ''b'')] [],
      Node ''input'' [(''name'', ''note''), (''value'', ''n'')] [],
      Node ''input'' [(''name'', ''go''), (''type'', ''submit''), (''value'', ''1'')] []]"
  by (simp add: tag_query_def login_dom_def)

lemma login_form_eq:
  "login_form =
     \<lparr>selection = [login_dom], method = ''POST'', action = Some ''/login'',
      fields' = [''user'' \<mapsto> [''joe''], ''tag'' \<mapsto> [''a'', ''b'']],
      buttons = [''go'' \<mapsto> [''1'']]\<rparr>"
  unfolding login_form_def NewForm_def serializeForm_def tag_query_login formAttributes_def
  by (simp add: Each_def enumerate_eq_zip serializeForm_each_def Attr_def Values_Add_def
      attrOrDefault_def ToUpper_post login_dom_def)

lemma search_form_eq:
  "search_form =
     \<lparr>selection = [search_dom], method = ''GET'', action = Some ''/search'',
      fields' = [''q'' \<mapsto> ['''']], buttons = Map.empty\<rparr>"
  unfolding search_form_def NewForm_def serializeForm_def formAttributes_def
  by (simp add: tag_query_def search_dom_def Each_def enumerate_eq_zip serializeForm_each_def
      Attr_def Values_Add_def attrOrDefault_def ToUpper_GET)

lemma anon_form_eq:
  "anon_form =
     \<lparr>selection = [anon_dom], method = ''GET'', action = Some '''',
      fields' = [''q'' \<mapsto> [''k'']], buttons = ['''' \<mapsto> [''x'']]\<rparr>"
  unfolding anon_form_def NewForm_def serializeForm_def formAttributes_def
  by (simp add: tag_query_def anon_dom_def Each_def enumerate_eq_zip serializeForm_each_def
      Attr_def Values_Add_def attrOrDefault_def ToUpper_GET)

lemma login_fields_range:
  "range_of (fields' login_form) [(''user'', [''joe'']), (''tag'', [''a'', ''b''])]"
  by (auto simp: login_form_eq range_of_def fun_eq_iff)

section \<open>Submission\<close>

subsection \<open>The payload\<close>

text \<open>
  The loop of \<^verbatim>\<open>send\<close> over the entries of a map, in any order, rebuilds the map.
\<close>

lemma copy_loop:
  "distinct (map fst kvs) \<Longrightarrow>
   fold (\<lambda>(name, vals) values. values(name \<mapsto> vals)) kvs m = m ++ map_of kvs"
proof (induction kvs arbitrary: m)
  case Nil
  then show ?case by simp
next
  case (Cons kv kvs)
  obtain k v where kv: "kv = (k, v)" by (cases kv)
  from Cons.prems kv have d: "distinct (map fst kvs)" and k: "k \<notin> fst ` set kvs" by auto
  from k have n: "map_of kvs k = None" by (simp add: map_of_eq_None_iff)
  have "fold (\<lambda>(name, vals) values. values(name \<mapsto> vals)) (kv # kvs) m =
        fold (\<lambda>(name, vals) values. values(name \<mapsto> vals)) kvs (m(k \<mapsto> v))"
    by (simp add: kv)
  also have "\<dots> = m(k \<mapsto> v) ++ map_of kvs" by (rule Cons.IH [OF d])
  also have "\<dots> = m ++ map_of (kv # kvs)"
    using n by (auto simp: kv fun_eq_iff map_add_def split: option.splits)
  finally show ?case .
qed

lemma send_payload:
  assumes "range_of (fields' f) frange"
  shows "send Do frange bn bv f w =
           Do event_Submit f (if bn \<noteq> '''' then (fields' f)(bn \<mapsto> [bv]) else fields' f) w"
  using assms by (simp add: send_def range_of_def copy_loop Values_Set_def)

lemma range_of_dom: "range_of m kvs \<Longrightarrow> dom m = fst ` set kvs"
  by (metis range_of_def dom_map_of_conv_image_fst)

lemma range_of_len: "range_of m kvs \<Longrightarrow> len m = length kvs"
  unfolding len_def range_of_def
  by (metis distinct_card dom_map_of_conv_image_fst length_map list.set_map)

subsection \<open>Click on a known button\<close>

text \<open>
  Claim C1, as amended. For every form, every order \<open>frange\<close> in which the loop of
  \<^verbatim>\<open>send\<close> visits the fields, and every button name \<open>b\<close> that is a key of \<^verbatim>\<open>buttons\<close> with
  first recorded value \<open>v\<close>: \<^verbatim>\<open>Click(b)\<close> hands the sink one submission and returns what
  the sink reports. When \<open>b\<close> is not the empty string the payload is the entries of
  \<^verbatim>\<open>fields\<close> with the single entry under \<open>b\<close> set to the one-element list of \<open>v\<close>
  (overwriting a field of that name, adding the entry otherwise). When \<open>b\<close> is the empty
  string the payload is the entries of \<^verbatim>\<open>fields\<close> alone: \<^verbatim>\<open>send\<close> sets the button's
  entry only under a name that is not empty.
\<close>

theorem Click_known_button:
  assumes "range_of (fields' f) frange" and "buttons f b = Some (v # vs)"
  shows "Click Do frange b f w =
           Inr (Do event_Submit f (if b = '''' then fields' f else (fields' f)(b \<mapsto> [v])) w)"
  using assms by (simp add: Click_def send_payload)

theorem Click_known_button_witness:
  "range_of (fields' login_form) [(''user'', [''joe'']), (''tag'', [''a'', ''b''])]
   \<and> buttons login_form ''go'' = Some [''1'']
   \<and> Click recorder [(''user'', [''joe'']), (''tag'', [''a'', ''b''])] ''go'' login_form []
       = Inr (None, [(fields' login_form)(''go'' \<mapsto> [''1''])])"
proof -
  note r = login_fields_range
  have b: "buttons login_form ''go'' = Some [''1'']"
    by (simp add: login_form_eq)
  from Click_known_button [OF r b, of recorder "[]"] r b show ?thesis
    by (simp add: recorder_def)
qed

text \<open>
  The claim as it was stated fails on a form whose submit button has the empty name
  (\<^verbatim>\<open><input type="submit" name="" value="x">\<close>): the empty name is a key of \<^verbatim>\<open>buttons\<close>, and
  the payload of \<^verbatim>\<open>Click("")\<close> is not the fields with the entry under that name set.
\<close>

theorem Click_empty_name_counterexample:
  "buttons anon_form '''' = Some [''x'']
   \<and> range_of (fields' anon_form) [(''q'', [''k''])]
   \<and> Click recorder [(''q'', [''k''])] '''' anon_form []
       \<noteq> Inr (recorder event_Submit anon_form ((fields' anon_form)('''' \<mapsto> [''x''])) [])"
proof -
  have "[''q'' \<mapsto> [''k'']] \<noteq> [''q'' \<mapsto> [''k''], '''' \<mapsto> [''x'']]"
    by (auto simp: fun_eq_iff)
  then show ?thesis
    by (simp add: anon_form_eq range_of_def Click_def send_def Values_Set_def recorder_def)
qed

subsection \<open>Click on an unknown button\<close>

text \<open>
  Claim C3. For every form and every name \<open>b\<close> that is not a key of \<^verbatim>\<open>buttons\<close>,
  \<^verbatim>\<open>Click(b)\<close> fails with an InvalidFormValue error whose message names \<open>b\<close>. The sink is
  not called: the result is the same for every sink \<open>Do\<close>, and the sink's world is the one
  before the call. The form after the call is the form before it.
\<close>

theorem Click_unknown_button:
  assumes "buttons f b = None"
  shows "Click Do frange b f w =
           Inr (Some (InvalidFormValue (''Form does not contain a button with the name ''
                  @ [CHR 0x27] @ b @ [CHR 0x27] @ ''.'')), w)
         \<and> step sel_Find Do (CallClick frange b) (f, w) =
           Inr (RetError (Some (InvalidFormValue
                  (''Form does not contain a button with the name ''
                   @ [CHR 0x27] @ b @ [CHR 0x27] @ ''.''))), f, w)"
  using assms by (simp add: Click_def NewInvalidFormValue_def)

theorem Click_unknown_button_witness:
  "buttons login_form ''nope'' = None
   \<and> Click recorder [] ''nope'' login_form [] =
        Inr (Some (InvalidFormValue (''Form does not contain a button with the name ''
               @ [CHR 0x27] @ ''nope'' @ [CHR 0x27] @ ''.'')), [])
   \<and> step tag_query recorder (CallClick [] ''nope'') (login_form, []) =
        Inr (RetError (Some (InvalidFormValue
               (''Form does not contain a button with the name ''
                @ [CHR 0x27] @ ''nope'' @ [CHR 0x27] @ ''.''))), login_form, [])"
proof -
  have b: "buttons login_form ''nope'' = None" by (simp add: login_form_eq)
  from Click_unknown_button [OF b, of recorder "[]" "[]" tag_query] b show ?thesis by simp
qed

subsection \<open>Submit\<close>

text \<open>
  Claim C4. For every form whose \<^verbatim>\<open>buttons\<close> mapping is empty, \<^verbatim>\<open>Submit()\<close> hands the sink
  a payload that is exactly the entries of \<^verbatim>\<open>fields\<close>: no button pair, no other key.
\<close>

theorem Submit_without_buttons:
  assumes "buttons f = Map.empty" and "range_of (fields' f) frange"
  shows "Submit Do brange frange f w = Inr (Do event_Submit f (fields' f) w)"
  using assms by (simp add: Submit_def len_def send_payload)

theorem Submit_without_buttons_witness:
  "buttons search_form = Map.empty \<and> range_of (fields' search_form) [(''q'', [''''])]
   \<and> Submit recorder [] [(''q'', [''''])] search_form [] = Inr (None, [fields' search_form])"
proof -
  have b: "buttons search_form = Map.empty" by (simp add: search_form_eq)
  have r: "range_of (fields' search_form) [(''q'', [''''])]"
    by (simp add: search_form_eq range_of_def)
  from Submit_without_buttons [OF b r, of recorder "[]" "[]"] b r show ?thesis
    by (simp add: recorder_def)
qed

text \<open>
  Claim C5. For every form with at least one button and every order \<open>brange\<close> in which
  the loop of \<^verbatim>\<open>Submit\<close> visits the buttons, \<^verbatim>\<open>Submit()\<close> returns the result of
  \<^verbatim>\<open>Click(b)\<close> for some name \<open>b\<close> of the \<^verbatim>\<open>buttons\<close> mapping (the first of the order); on a
  form with exactly one button it is the click on that button, payload included.
\<close>

theorem Submit_clicks_some_button:
  assumes "buttons f \<noteq> Map.empty" and "range_of (buttons f) brange"
  shows "(\<exists>b \<in> dom (buttons f). Submit Do brange frange f w = Click Do frange b f w)
         \<and> (\<forall>b. dom (buttons f) = {b} \<longrightarrow>
               Submit Do brange frange f w = Click Do frange b f w)"
proof -
  from assms have ne: "brange \<noteq> []" by (auto simp: range_of_def)
  then obtain name vals rest where br: "brange = (name, vals) # rest"
    by (cases brange) auto
  from assms(2) br have pos: "len (buttons f) > 0" by (simp add: range_of_len)
  from assms(2) br have mem: "name \<in> dom (buttons f)" by (simp add: range_of_dom)
  from pos br have eq: "Submit Do brange frange f w = Click Do frange name f w"
    by (simp add: Submit_def)
  have "Submit Do brange frange f w = Click Do frange b f w" if "dom (buttons f) = {b}" for b
    using that mem eq by simp
  with mem eq show ?thesis by (intro conjI bexI [of _ name] allI impI)
qed

theorem Submit_clicks_some_button_witness:
  "buttons login_form \<noteq> Map.empty \<and> range_of (buttons login_form) [(''go'', [''1''])]
   \<and> dom (buttons login_form) = {''go''}
   \<and> Submit recorder [(''go'', [''1''])] [(''user'', [''joe'']), (''tag'', [''a'', ''b''])]
         login_form []
       = Click recorder [(''user'', [''joe'']), (''tag'', [''a'', ''b''])] ''go'' login_form []"
proof -
  have ne: "buttons login_form \<noteq> Map.empty" by (simp add: login_form_eq)
  have r: "range_of (buttons login_form) [(''go'', [''1''])]"
    by (simp add: login_form_eq range_of_def)
  have d: "dom (buttons login_form) = {''go''}" by (simp add: login_form_eq)
  from Submit_clicks_some_button [OF ne r, of recorder
      "[(''user'', [''joe'']), (''tag'', [''a'', ''b''])]" "[]"]
    ne r d show ?thesis by blast
qed

section \<open>Input\<close>

text \<open>
  Claim C2. When \<open>name\<close> is a key of \<^verbatim>\<open>fields\<close>, whatever the number of its values,
  \<^verbatim>\<open>Input(name, value)\<close> succeeds and leaves the form with the values of \<open>name\<close> replaced
  by the one-element list of the value. When \<open>name\<close> is not a key, it fails with an
  ElementNotFound error whose message names \<open>name\<close>, and the form is unchanged. In both
  cases the keys of \<^verbatim>\<open>fields\<close> are the keys before the call: no entry is created.
\<close>

theorem Input_replaces_or_fails:
  "(fields' f name \<noteq> None \<longrightarrow>
      Input name val f = (None, f\<lparr>fields' := (fields' f)(name \<mapsto> [val])\<rparr>))
   \<and> (fields' f name = None \<longrightarrow>
      Input name val f =
        (Some (ElementNotFound
           (''No input found with name '' @ [CHR 0x27] @ name @ [CHR 0x27] @ ''.'')), f))
   \<and> dom (fields' (snd (Input name val f))) = dom (fields' f)"
  by (auto simp: Input_def Values_Set_def NewElementNotFound_def)

theorem Input_replaces_or_fails_witness:
  "fields' login_form ''tag'' = Some [''a'', ''b'']
   \<and> Input ''tag'' ''z'' login_form =
        (None, login_form\<lparr>fields' := (fields' login_form)(''tag'' \<mapsto> [''z''])\<rparr>)
   \<and> fields' login_form ''missing'' = None
   \<and> Input ''missing'' ''x'' login_form =
        (Some (ElementNotFound
           (''No input found with name '' @ [CHR 0x27] @ ''missing'' @ [CHR 0x27] @ ''.'')),
         login_form)
   \<and> dom (fields' (snd (Input ''tag'' ''z'' login_form))) = {''user'', ''tag''}"
  using Input_replaces_or_fails [of login_form "''tag''" "''z''"]
    Input_replaces_or_fails [of login_form "''missing''" "''x''"]
  by (auto simp: login_form_eq)

section \<open>Construction\<close>

subsection \<open>One scanned element\<close>

lemma Values_Add_apply:
  "Values_Add k v m x =
     (if x = k then Some ((case m k of None \<Rightarrow> [] | Some vs \<Rightarrow> vs) @ [v]) else m x)"
  by (simp add: Values_Add_def)

lemma Values_Add_neq: "Values_Add k v m \<noteq> m"
proof
  assume "Values_Add k v m = m"
  then have "Values_Add k v m k = m k" by simp
  then show False by (cases "m k") (simp_all add: Values_Add_apply)
qed

text \<open>
  What the callback does with one element, from any two mappings: it adds to the second
  exactly when the element has a name and the type \<^verbatim>\<open>submit\<close>, it changes nothing when the
  element has a name and no type, and for a name with another type it adds to the first
  exactly when the element has a value.
\<close>

lemma serializeForm_each_cases:
  "(snd (serializeForm_each i [n] (F, B)) \<noteq> B
      \<longleftrightarrow> Attr ''name'' [n] \<noteq> None \<and> Attr ''type'' [n] = Some ''submit'')
   \<and> (Attr ''name'' [n] \<noteq> None \<and> Attr ''type'' [n] = None
      \<longrightarrow> serializeForm_each i [n] (F, B) = (F, B))
   \<and> (Attr ''name'' [n] \<noteq> None \<and> Attr ''type'' [n] \<noteq> None
        \<and> Attr ''type'' [n] \<noteq> Some ''submit''
      \<longrightarrow> (fst (serializeForm_each i [n] (F, B)) \<noteq> F \<longleftrightarrow> Attr ''value'' [n] \<noteq> None)
          \<and> snd (serializeForm_each i [n] (F, B)) = B)"
  by (auto simp: serializeForm_each_def Values_Add_neq split: option.splits)

subsection \<open>The whole scan\<close>

text \<open>
  The scan from any two mappings: under each name, the values the scanned elements
  contribute are appended, in scan order, to the values already there.
\<close>

lemma each_fold:
  "fold (\<lambda>(i, n). serializeForm_each i [n]) (enumerate k input) (F, B) = (F', B') \<Longrightarrow>
   F' name =
     (if spec_field_values input name = [] then F name
      else Some ((case F name of None \<Rightarrow> [] | Some vs \<Rightarrow> vs) @ spec_field_values input name))
   \<and> B' name =
     (if spec_button_values input name = [] then B name
      else Some ((case B name of None \<Rightarrow> [] | Some vs \<Rightarrow> vs) @ spec_button_values input name))"
proof (induction input arbitrary: k F B)
  case Nil
  then show ?case by (simp add: spec_field_values_def spec_button_values_def map_filter_simps)
next
  case (Cons n input)
  obtain F1 B1 where s: "serializeForm_each k [n] (F, B) = (F1, B1)"
    by (cases "serializeForm_each k [n] (F, B)")
  with Cons.prems have
    "fold (\<lambda>(i, n). serializeForm_each i [n]) (enumerate (Suc k) input) (F1, B1) = (F', B')"
    by simp
  note IH = Cons.IH [OF this]
  from s have F1: "F1 name =
      (if spec_field_values [n] name = [] then F name
       else Some ((case F name of None \<Rightarrow> [] | Some vs \<Rightarrow> vs) @ spec_field_values [n] name))"
    and B1: "B1 name =
      (if spec_button_values [n] name = [] then B name
       else Some ((case B name of None \<Rightarrow> [] | Some vs \<Rightarrow> vs) @ spec_button_values [n] name))"
    by (auto simp: serializeForm_each_def spec_field_values_def spec_button_values_def
        map_filter_simps Values_Add_apply split: option.splits if_splits)
  have fa: "spec_field_values (n # input) name =
      spec_field_values [n] name @ spec_field_values input name"
    by (simp add: spec_field_values_def map_filter_simps split: option.splits)
  have ba: "spec_button_values (n # input) name =
      spec_button_values [n] name @ spec_button_values input name"
    by (simp add: spec_button_values_def)
  from IH F1 B1 show ?case
    unfolding fa ba by (auto split: option.splits if_splits)
qed

lemma serializeForm_scan:
  "fst (serializeForm sel_Find sel) name =
     (if spec_field_values (sel_Find ''input,button'' sel) name = [] then None
      else Some (spec_field_values (sel_Find ''input,button'' sel) name))
   \<and> snd (serializeForm sel_Find sel) name =
     (if spec_button_values (sel_Find ''input,button'' sel) name = [] then None
      else Some (spec_button_values (sel_Find ''input,button'' sel) name))"
proof (cases "sel_Find ''input,button'' sel = []")
  case True
  then show ?thesis
    by (simp add: serializeForm_def spec_field_values_def spec_button_values_def map_filter_simps)
next
  case False
  obtain F B where
    fb: "Each serializeForm_each (sel_Find ''input,button'' sel) (Map.empty, Map.empty) = (F, B)"
    by (cases "Each serializeForm_each (sel_Find ''input,button'' sel) (Map.empty, Map.empty)")
  from each_fold [OF fb [unfolded Each_def], of name] False fb show ?thesis
    by (simp add: serializeForm_def)
qed

lemma length_map_filter:
  "length (List.map_filter g (filter Q xs)) = length (filter (\<lambda>x. Q x \<and> g x \<noteq> None) xs)"
  by (induction xs) (auto simp: map_filter_simps split: option.splits)

lemma spec_button_values_length:
  "length (spec_button_values input name) =
     length (filter (\<lambda>n. Attr ''name'' [n] = Some name \<and> Attr ''type'' [n] = Some ''submit'') input)"
  by (simp add: spec_button_values_def)

lemma spec_field_values_length:
  "length (spec_field_values input name) =
     length (filter (\<lambda>n. Attr ''name'' [n] = Some name \<and> Attr ''type'' [n] \<noteq> None
                       \<and> Attr ''type'' [n] \<noteq> Some ''submit'' \<and> Attr ''value'' [n] \<noteq> None) input)"
  by (simp add: spec_field_values_def length_map_filter conj_ac)

text \<open>
  Claim C6. Construction classifies every scanned element by its attributes, and only
  by them. For every name: the name is a key of \<^verbatim>\<open>buttons\<close> if and only if some scanned
  element has that name attribute and a type attribute equal to \<^verbatim>\<open>submit\<close>, and
  \<^verbatim>\<open>buttons\<close> holds one value under the name for each such element; the name is a key of
  \<^verbatim>\<open>fields\<close> if and only if some scanned element has that name attribute, a type
  attribute other than \<^verbatim>\<open>submit\<close> and a value attribute, and \<^verbatim>\<open>fields\<close> holds one value
  under the name for each such element. So an element with a name and no type attribute
  adds to neither mapping, a submit-type element adds to \<^verbatim>\<open>buttons\<close> alone, and an element
  of another type adds to \<^verbatim>\<open>fields\<close> alone, and only when its value attribute is present.
\<close>

theorem serializeForm_classifies:
  "(snd (serializeForm sel_Find sel) name \<noteq> None \<longleftrightarrow>
      (\<exists>n \<in> set (sel_Find ''input,button'' sel).
         Attr ''name'' [n] = Some name \<and> Attr ''type'' [n] = Some ''submit''))
   \<and> (fst (serializeForm sel_Find sel) name \<noteq> None \<longleftrightarrow>
      (\<exists>n \<in> set (sel_Find ''input,button'' sel).
         Attr ''name'' [n] = Some name \<and> Attr ''type'' [n] \<noteq> None
         \<and> Attr ''type'' [n] \<noteq> Some ''submit'' \<and> Attr ''value'' [n] \<noteq> None))
   \<and> length (case snd (serializeForm sel_Find sel) name of None \<Rightarrow> [] | Some vs \<Rightarrow> vs) =
       length (filter (\<lambda>n. Attr ''name'' [n] = Some name \<and> Attr ''type'' [n] = Some ''submit'')
                 (sel_Find ''input,button'' sel))
   \<and> length (case fst (serializeForm sel_Find sel) name of None \<Rightarrow> [] | Some vs \<Rightarrow> vs) =
       length (filter (\<lambda>n. Attr ''name'' [n] = Some name \<and> Attr ''type'' [n] \<noteq> None
                          \<and> Attr ''type'' [n] \<noteq> Some ''submit'' \<and> Attr ''value'' [n] \<noteq> None)
                 (sel_Find ''input,button'' sel))"
proof -
  let ?input = "sel_Find ''input,button'' sel"
  let ?isb = "\<lambda>n. Attr ''name'' [n] = Some name \<and> Attr ''type'' [n] = Some ''submit''"
  let ?isf = "\<lambda>n. Attr ''name'' [n] = Some name \<and> Attr ''type'' [n] \<noteq> None
                 \<and> Attr ''type'' [n] \<noteq> Some ''submit'' \<and> Attr ''value'' [n] \<noteq> None"
  note s = serializeForm_scan [of sel_Find sel name]
  have lb: "length (case snd (serializeForm sel_Find sel) name of None \<Rightarrow> [] | Some vs \<Rightarrow> vs)
              = length (filter ?isb ?input)"
    using s spec_button_values_length [of ?input name] by (simp split: if_splits)
  have lf: "length (case fst (serializeForm sel_Find sel) name of None \<Rightarrow> [] | Some vs \<Rightarrow> vs)
              = length (filter ?isf ?input)"
    using s spec_field_values_length [of ?input name] by (simp split: if_splits)
  have kb: "snd (serializeForm sel_Find sel) name \<noteq> None \<longleftrightarrow> (\<exists>n \<in> set ?input. ?isb n)"
  proof -
    have "snd (serializeForm sel_Find sel) name \<noteq> None \<longleftrightarrow> spec_button_values ?input name \<noteq> []"
      using s by simp
    also have "\<dots> \<longleftrightarrow> 0 < length (spec_button_values ?input name)"
      by simp
    also have "\<dots> \<longleftrightarrow> 0 < length (filter ?isb ?input)"
      by (simp only: spec_button_values_length)
    also have "\<dots> \<longleftrightarrow> (\<exists>n \<in> set ?input. ?isb n)"
      by (simp add: filter_empty_conv)
    finally show ?thesis .
  qed
  have kf: "fst (serializeForm sel_Find sel) name \<noteq> None \<longleftrightarrow> (\<exists>n \<in> set ?input. ?isf n)"
  proof -
    have "fst (serializeForm sel_Find sel) name \<noteq> None \<longleftrightarrow> spec_field_values ?input name \<noteq> []"
      using s by simp
    also have "\<dots> \<longleftrightarrow> 0 < length (spec_field_values ?input name)"
      by simp
    also have "\<dots> \<longleftrightarrow> 0 < length (filter ?isf ?input)"
      by (simp only: spec_field_values_length)
    also have "\<dots> \<longleftrightarrow> (\<exists>n \<in> set ?input. ?isf n)"
      by (simp add: filter_empty_conv)
    finally show ?thesis .
  qed
  from kb kf lb lf show ?thesis by (intro conjI)
qed

theorem serializeForm_classifies_witness:
  "snd (serializeForm tag_query [vote_dom]) ''v'' \<noteq> None
   \<and> length (case snd (serializeForm tag_query [vote_dom]) ''v'' of None \<Rightarrow> [] | Some vs \<Rightarrow> vs) = 2
   \<and> snd (serializeForm tag_query [vote_dom]) ''who'' = None
   \<and> fst (serializeForm tag_query [vote_dom]) ''who'' \<noteq> None
   \<and> fst (serializeForm tag_query [login_dom]) ''note'' = None
   \<and> snd (serializeForm tag_query [login_dom]) ''note'' = None
   \<and> length (case fst (serializeForm tag_query [login_dom]) ''tag'' of None \<Rightarrow> [] | Some vs \<Rightarrow> vs) = 2"
  using serializeForm_classifies [of tag_query "[vote_dom]" "''v''"]
    serializeForm_classifies [of tag_query "[vote_dom]" "''who''"]
    serializeForm_classifies [of tag_query "[login_dom]" "''note''"]
    serializeForm_classifies [of tag_query "[login_dom]" "''tag''"]
  by (simp add: tag_query_def vote_dom_def login_dom_def Attr_def)

text \<open>
  Claim C7. After construction, \<^verbatim>\<open>buttons[name]\<close> is the list, in scan order, of the value
  of every submit-type element of that name, the empty string standing for an element
  without a value attribute (which is recorded, not left out); and \<^verbatim>\<open>fields[name]\<close> is
  the list, in scan order, of the value of every element of that name with a type other
  than \<^verbatim>\<open>submit\<close> and a value attribute. A name with no such element is not a key.
\<close>

theorem serializeForm_values:
  "fst (serializeForm sel_Find sel) name
     = spec_entry (spec_field_values (sel_Find ''input,button'' sel) name)
   \<and> snd (serializeForm sel_Find sel) name
     = spec_entry (spec_button_values (sel_Find ''input,button'' sel) name)"
proof (cases "sel_Find ''input,button'' sel = []")
  case True
  then show ?thesis
    by (simp add: serializeForm_def spec_entry_def spec_field_values_def spec_button_values_def
        map_filter_simps)
next
  case False
  obtain F B where
    fb: "Each serializeForm_each (sel_Find ''input,button'' sel) (Map.empty, Map.empty) = (F, B)"
    by (cases "Each serializeForm_each (sel_Find ''input,button'' sel) (Map.empty, Map.empty)")
  from each_fold [OF fb [unfolded Each_def], of name] False fb show ?thesis
    by (simp add: serializeForm_def spec_entry_def)
qed

theorem serializeForm_values_witness:
  "snd (serializeForm tag_query [vote_dom]) ''v'' = Some [''yes'', '''']
   \<and> fst (serializeForm tag_query [vote_dom]) ''who'' = Some [''me'']
   \<and> fst (serializeForm tag_query [vote_dom]) ''v'' = None
   \<and> fst (serializeForm tag_query [login_dom]) ''tag'' = Some [''a'', ''b'']"
  using serializeForm_values [of tag_query "[vote_dom]" "''v''"]
    serializeForm_values [of tag_query "[vote_dom]" "''who''"]
    serializeForm_values [of tag_query "[login_dom]" "''tag''"]
  by (simp add: spec_entry_def spec_button_values_def spec_field_values_def tag_query_def
      vote_dom_def login_dom_def Attr_def map_filter_simps)

subsection \<open>Method and action\<close>

text \<open>
  Claim C8. Construction is a total function of the selection: whatever the document,
  it yields a form, with no error and no panic in its course. The form's method is
  \<^verbatim>\<open>GET\<close> when the form element has no method attribute and the upper-cased value of the
  attribute otherwise (upper-casing maps an ASCII value byte by byte; \<^verbatim>\<open>post\<close> gives
  \<^verbatim>\<open>POST\<close>); a missing action attribute is parsed as the empty string, and an action that
  does not parse leaves no URL.
\<close>

theorem NewForm_Method:
  "NewForm sel_Find u Parse sel =
     \<lparr>selection = sel,
      method = (case Attr ''method'' sel of None \<Rightarrow> ''GET'' | Some v \<Rightarrow> ToUpper u v),
      action = Parse (case Attr ''action'' sel of None \<Rightarrow> '''' | Some v \<Rightarrow> v),
      fields' = fst (serializeForm sel_Find sel),
      buttons = snd (serializeForm sel_Find sel)\<rparr>
   \<and> Method (NewForm sel_Find u Parse sel) =
       (case Attr ''method'' sel of None \<Rightarrow> ''GET'' | Some v \<Rightarrow> ToUpper u v)
   \<and> (\<forall>v. isASCII v \<longrightarrow> ToUpper u v = map upper_byte v)
   \<and> ToUpper u ''post'' = ''POST''"
  by (simp add: NewForm_def formAttributes_def attrOrDefault_def Method_def ToUpper_GET
      ToUpper_ASCII ToUpper_post split: option.splits prod.splits)

theorem NewForm_Method_witness:
  "Attr ''method'' [login_dom] = Some ''post'' \<and> Method login_form = ''POST''
   \<and> Attr ''method'' [search_dom] = None \<and> Method search_form = ''GET''
   \<and> isASCII ''Put''
   \<and> Method (NewForm tag_query id Some [vote_dom]) = map upper_byte ''Put''"
proof -
  have a: "Attr ''method'' [login_dom] = Some ''post''" by (simp add: Attr_def login_dom_def)
  have b: "Attr ''method'' [search_dom] = None" by (simp add: Attr_def search_dom_def)
  have c: "Attr ''method'' [vote_dom] = Some ''Put''" by (simp add: Attr_def vote_dom_def)
  have d: "isASCII ''Put''" by (simp add: isASCII_def)
  note m = NewForm_Method [THEN conjunct2]
  from m [of tag_query id Some "[login_dom]"] a
  have p: "Method login_form = ''POST''" by (simp add: login_form_def)
  from m [of tag_query id Some "[search_dom]"] b
  have g: "Method search_form = ''GET''" by (simp add: search_form_def)
  from m [of tag_query id Some "[vote_dom]"] c d
  have u: "Method (NewForm tag_query id Some [vote_dom]) = map upper_byte ''Put''" by simp
  from a b d p g u show ?thesis by simp
qed

section \<open>What the operations leave unchanged\<close>

lemma step_frame:
  "step q Do c (f, w) = Inr (r, f', w') \<Longrightarrow>
     buttons f' = buttons f \<and> selection f' = selection f \<and> method f' = method f
     \<and> action f' = action f \<and> (\<not> is_Input c \<longrightarrow> f' = f)"
  by (cases c) (auto simp: Input_def split: sum.splits prod.splits if_splits)

lemma run_frame:
  "run q Do cs (f, w) = Inr (rs, f', w') \<Longrightarrow>
     buttons f' = buttons f \<and> selection f' = selection f \<and> method f' = method f
     \<and> action f' = action f \<and> ((\<forall>c \<in> set cs. \<not> is_Input c) \<longrightarrow> f' = f)"
proof (induction cs arbitrary: f w rs)
  case Nil
  then show ?case by simp
next
  case (Cons c cs)
  from Cons.prems obtain r f1 w1 rs1 where
    st: "step q Do c (f, w) = Inr (r, f1, w1)" and
    rn: "run q Do cs (f1, w1) = Inr (rs1, f', w')"
    by (auto split: sum.splits prod.splits)
  from step_frame [OF st] Cons.IH [OF rn] show ?case by auto
qed

lemma run_append:
  "run q Do (cs @ ds) s =
     (case run q Do cs s of
        Inl p \<Rightarrow> Inl p
      | Inr (rs, s') \<Rightarrow>
          (case run q Do ds s' of Inl p \<Rightarrow> Inl p | Inr (rs', s'') \<Rightarrow> Inr (rs @ rs', s'')))"
  by (induction cs arbitrary: s) (auto split: sum.splits prod.splits)

lemma accessor_step:
  "is_accessor c \<Longrightarrow> \<exists>r. \<forall>w. step q Do c (f, w) = Inr (r, f, w)"
  by (cases c) auto

lemma accessor_repeat:
  assumes acc: "is_accessor c" and ni: "\<forall>d \<in> set cs. \<not> is_Input d"
    and rn: "run q Do (c # cs @ [c]) (f, w) = Inr (rs, f', w')"
  shows "last rs = hd rs"
proof -
  from accessor_step [OF acc, of q Do f] obtain r where
    r: "\<And>w. step q Do c (f, w) = Inr (r, f, w)"
    by blast
  from rn r obtain rs1 f1 w1 where
    r1: "run q Do (cs @ [c]) (f, w) = Inr (rs1, f1, w1)" and rs: "rs = r # rs1"
    by (auto split: sum.splits prod.splits)
  from r1 obtain rs2 f2 w2 rs3 where
    r2: "run q Do cs (f, w) = Inr (rs2, f2, w2)" and
    r3: "run q Do [c] (f2, w2) = Inr (rs3, f1, w1)" and rs1: "rs1 = rs2 @ rs3"
    unfolding run_append by (auto split: sum.splits prod.splits)
  from run_frame [OF r2] ni have "f2 = f" by simp
  with r3 r have "rs3 = [r]" by auto
  with rs rs1 show ?thesis by simp
qed

lemma Click_twice:
  assumes "range_of (fields' f) frange" and "buttons f b = Some (v # vs)"
  shows "run q Do [CallClick frange b, CallClick frange b] (f, w) =
           (case Do event_Submit f (if b = '''' then fields' f else (fields' f)(b \<mapsto> [v])) w of
              (e1, w1) \<Rightarrow>
                (case Do event_Submit f
                        (if b = '''' then fields' f else (fields' f)(b \<mapsto> [v])) w1 of
                   (e2, w2) \<Rightarrow> Inr ([RetError e1, RetError e2], f, w2)))"
proof -
  define p where "p = (if b = '''' then fields' f else (fields' f)(b \<mapsto> [v]))"
  have c: "Click Do frange b f w0 = Inr (Do event_Submit f p w0)" for w0
    using assms by (simp add: Click_def send_payload p_def)
  have "run q Do [CallClick frange b, CallClick frange b] (f, w) =
           (case Do event_Submit f p w of
              (e1, w1) \<Rightarrow>
                (case Do event_Submit f p w1 of
                   (e2, w2) \<Rightarrow> Inr ([RetError e1, RetError e2], f, w2)))"
    by (simp add: c split: prod.splits)
  then show ?thesis unfolding p_def .
qed

section \<open>Lists of values are never empty\<close>

lemma Values_Add_nonempty: "nonempty_values m \<Longrightarrow> nonempty_values (Values_Add k v m)"
  by (simp add: nonempty_values_def Values_Add_apply)

lemma each_nonempty:
  assumes "nonempty_values (fst s) \<and> nonempty_values (snd s)"
  shows "nonempty_values (fst (serializeForm_each i sel s))
         \<and> nonempty_values (snd (serializeForm_each i sel s))"
  using assms
  by (cases s) (auto simp: serializeForm_each_def Values_Add_nonempty split: option.splits)

lemma fold_nonempty:
  "nonempty_values (fst s) \<and> nonempty_values (snd s) \<Longrightarrow>
   nonempty_values (fst (fold (\<lambda>(i, n). serializeForm_each i [n]) xs s))
   \<and> nonempty_values (snd (fold (\<lambda>(i, n). serializeForm_each i [n]) xs s))"
proof (induction xs arbitrary: s)
  case Nil
  then show ?case by simp
next
  case (Cons x xs)
  obtain i n where x: "x = (i, n)" by (cases x)
  from each_nonempty [OF Cons.prems, of i "[n]"] Cons.IH [of "serializeForm_each i [n] s"] x
  show ?case by simp
qed

lemma serializeForm_nonempty:
  "nonempty_values (fst (serializeForm sel_Find sel))
   \<and> nonempty_values (snd (serializeForm sel_Find sel))"
proof -
  have e: "nonempty_values (fst (Map.empty, Map.empty))
           \<and> nonempty_values (snd (Map.empty, Map.empty))"
    by (simp add: nonempty_values_def)
  from fold_nonempty [OF e] e show ?thesis
    by (simp add: serializeForm_def Each_def Let_def)
qed

lemma NewForm_nonempty:
  "nonempty_values (fields' (NewForm sel_Find u Parse sel))
   \<and> nonempty_values (buttons (NewForm sel_Find u Parse sel))"
proof -
  obtain F B where fb: "serializeForm sel_Find sel = (F, B)"
    by (cases "serializeForm sel_Find sel")
  with serializeForm_nonempty [of sel_Find sel] show ?thesis
    by (simp add: NewForm_def split: prod.splits)
qed

lemma Input_nonempty:
  "nonempty_values (fields' f) \<Longrightarrow> nonempty_values (fields' (snd (Input name val f)))"
  by (simp add: Input_def Values_Set_def nonempty_values_def)

lemma Click_no_panic:
  "nonempty_values (buttons f) \<Longrightarrow> \<exists>r. Click Do frange b f w = Inr r"
  by (auto simp: Click_def nonempty_values_def split: option.splits list.splits)

lemma Submit_no_panic:
  "nonempty_values (buttons f) \<Longrightarrow> \<exists>r. Submit Do brange frange f w = Inr r"
  using Click_no_panic [of f Do frange _ w]
  by (auto simp: Submit_def split: list.splits)

lemma step_total:
  assumes "nonempty_values (fields' f)" and "nonempty_values (buttons f)"
  shows "\<exists>r f' w'. step q Do c (f, w) = Inr (r, f', w')
           \<and> nonempty_values (fields' f') \<and> nonempty_values (buttons f')"
proof (cases c)
  case (CallInput name val)
  with assms Input_nonempty [OF assms(1), of name val] show ?thesis
    by (auto simp: Input_def split: prod.splits)
next
  case (CallClick frange b)
  from Click_no_panic [OF assms(2), of Do frange b w] obtain e w' where
    "Click Do frange b f w = Inr (e, w')" by auto
  with CallClick assms show ?thesis by simp
next
  case (CallSubmit brange frange)
  from Submit_no_panic [OF assms(2), of Do brange frange w] obtain e w' where
    "Submit Do brange frange f w = Inr (e, w')" by auto
  with CallSubmit assms show ?thesis by simp
qed (use assms in auto)

lemma run_total:
  assumes "nonempty_values (fields' f)" and "nonempty_values (buttons f)"
  shows "\<exists>rs f' w'. run q Do cs (f, w) = Inr (rs, f', w')
           \<and> nonempty_values (fields' f') \<and> nonempty_values (buttons f')"
  using assms
proof (induction cs arbitrary: f w)
  case Nil
  then show ?case by simp
next
  case (Cons c cs)
  from step_total [OF Cons.prems, of q Do c w] obtain r f1 w1 where
    st: "step q Do c (f, w) = Inr (r, f1, w1)" and
    n1: "nonempty_values (fields' f1)" "nonempty_values (buttons f1)" by blast
  from Cons.IH [OF n1, of w1] obtain rs f' w' where
    "run q Do cs (f1, w1) = Inr (rs, f', w')" "nonempty_values (fields' f')"
    "nonempty_values (buttons f')" by blast
  with st show ?case by simp
qed

lemma login_form_nonempty:
  "nonempty_values (fields' login_form)" "nonempty_values (buttons login_form)"
  using NewForm_nonempty [of tag_query id Some "[login_dom]"] by (simp_all add: login_form_def)

section \<open>The frame of the operations\<close>

text \<open>
  Claim C9. Over any sequence of calls on a form, with any sink: the \<^verbatim>\<open>buttons\<close> mapping
  after the calls is the one before them, and when no call is an \<^verbatim>\<open>Input\<close> the \<^verbatim>\<open>fields\<close>
  mapping is too (\<^verbatim>\<open>Method\<close>, \<^verbatim>\<open>Action\<close>, \<^verbatim>\<open>Find\<close>, \<^verbatim>\<open>Click\<close> and \<^verbatim>\<open>Submit\<close>, and \<^verbatim>\<open>send\<close>
  within the last two, write to neither). A call of \<^verbatim>\<open>Method\<close>, \<^verbatim>\<open>Action\<close> or \<^verbatim>\<open>Find\<close>
  repeated after calls none of which is an \<^verbatim>\<open>Input\<close> returns what it returned the first
  time. Two clicks in a row on a known button both reach the sink, with the same form and
  the same payload: the form keeps no mark of having been submitted.
\<close>

theorem operations_frame:
  "(run q Do cs (f, w) = Inr (rs, f', w') \<longrightarrow>
      buttons f' = buttons f \<and> ((\<forall>c \<in> set cs. \<not> is_Input c) \<longrightarrow> fields' f' = fields' f))
   \<and> (is_accessor c \<and> (\<forall>d \<in> set ds. \<not> is_Input d)
        \<and> run q Do (c # ds @ [c]) (f, w) = Inr (rs2, f2, w2) \<longrightarrow> last rs2 = hd rs2)
   \<and> (range_of (fields' f) frange \<and> buttons f b = Some (v # vs) \<longrightarrow>
        run q Do [CallClick frange b, CallClick frange b] (f, w) =
          (case Do event_Submit f (if b = '''' then fields' f else (fields' f)(b \<mapsto> [v])) w of
             (e1, w1) \<Rightarrow>
               (case Do event_Submit f
                       (if b = '''' then fields' f else (fields' f)(b \<mapsto> [v])) w1 of
                  (e2, w2) \<Rightarrow> Inr ([RetError e1, RetError e2], f, w2))))"
proof (intro conjI impI)
  assume "run q Do cs (f, w) = Inr (rs, f', w')"
  from run_frame [OF this] show "buttons f' = buttons f" by simp
next
  assume "run q Do cs (f, w) = Inr (rs, f', w')" and "\<forall>c \<in> set cs. \<not> is_Input c"
  with run_frame [of q Do cs f w rs f' w'] show "fields' f' = fields' f" by simp
next
  assume "is_accessor c \<and> (\<forall>d \<in> set ds. \<not> is_Input d)
        \<and> run q Do (c # ds @ [c]) (f, w) = Inr (rs2, f2, w2)"
  then have "is_accessor c" "\<forall>d \<in> set ds. \<not> is_Input d"
    "run q Do (c # ds @ [c]) (f, w) = Inr (rs2, f2, w2)" by simp_all
  from accessor_repeat [OF this] show "last rs2 = hd rs2" .
next
  assume "range_of (fields' f) frange \<and> buttons f b = Some (v # vs)"
  then show "run q Do [CallClick frange b, CallClick frange b] (f, w) =
          (case Do event_Submit f (if b = '''' then fields' f else (fields' f)(b \<mapsto> [v])) w of
             (e1, w1) \<Rightarrow>
               (case Do event_Submit f
                       (if b = '''' then fields' f else (fields' f)(b \<mapsto> [v])) w1 of
                  (e2, w2) \<Rightarrow> Inr ([RetError e1, RetError e2], f, w2)))"
    by (intro Click_twice) simp_all
qed

theorem operations_frame_witness:
  "(\<exists>rs f' w'. run tag_query recorder
        [CallInput ''user'' ''ann'', CallSubmit [(''go'', [''1''])] []] (login_form, [])
        = Inr (rs, f', w') \<and> buttons f' = buttons login_form)
   \<and> (\<exists>rs f' w'. run tag_query recorder
        [CallMethod, CallClick [] ''go'', CallFind ''input'', CallMethod] (login_form, [])
        = Inr (rs, f', w') \<and> fields' f' = fields' login_form \<and> last rs = hd rs)
   \<and> run tag_query recorder
        [CallClick [(''user'', [''joe'']), (''tag'', [''a'', ''b''])] ''go'',
         CallClick [(''user'', [''joe'']), (''tag'', [''a'', ''b''])] ''go''] (login_form, [])
      = Inr ([RetError None, RetError None], login_form,
             [(fields' login_form)(''go'' \<mapsto> [''1'']),
              (fields' login_form)(''go'' \<mapsto> [''1''])])"
proof -
  note n = login_form_nonempty
  from run_total [OF n, of tag_query recorder
      "[CallInput ''user'' ''ann'', CallSubmit [(''go'', [''1''])] []]" "[]"]
  obtain rs f' w' where
    r1: "run tag_query recorder [CallInput ''user'' ''ann'', CallSubmit [(''go'', [''1''])] []]
        (login_form, []) = Inr (rs, f', w')" by blast
  with operations_frame [of tag_query recorder
      "[CallInput ''user'' ''ann'', CallSubmit [(''go'', [''1''])] []]" login_form "[]" rs f' w']
  have p1: "\<exists>rs f' w'. run tag_query recorder
        [CallInput ''user'' ''ann'', CallSubmit [(''go'', [''1''])] []] (login_form, [])
        = Inr (rs, f', w') \<and> buttons f' = buttons login_form"
    by blast
  from run_total [OF n, of tag_query recorder
      "[CallMethod, CallClick [] ''go'', CallFind ''input'', CallMethod]" "[]"]
  obtain rs2 f2 w2 where
    r2: "run tag_query recorder [CallMethod, CallClick [] ''go'', CallFind ''input'', CallMethod]
        (login_form, []) = Inr (rs2, f2, w2)" by blast
  from r2 operations_frame [of tag_query recorder
      "[CallMethod, CallClick [] ''go'', CallFind ''input'', CallMethod]" login_form "[]"
      rs2 f2 w2]
  have a2: "fields' f2 = fields' login_form" by simp
  from r2 operations_frame [where q = tag_query and Do = recorder and f = login_form
      and w = "[]" and c = CallMethod and ds = "[CallClick [] ''go'', CallFind ''input'']"
      and ?rs2.0 = rs2 and ?f2.0 = f2 and ?w2.0 = w2]
  have b2: "last rs2 = hd rs2" by simp
  note r = login_fields_range
  have b: "buttons login_form ''go'' = Some [''1'']"
    by (simp add: login_form_eq)
  from r b operations_frame [where q = tag_query and Do = recorder and f = login_form
      and w = "[]" and frange = "[(''user'', [''joe'']), (''tag'', [''a'', ''b''])]"
      and b = "''go''" and v = "''1''" and vs = "[]"]
  have p3: "run tag_query recorder
        [CallClick [(''user'', [''joe'']), (''tag'', [''a'', ''b''])] ''go'',
         CallClick [(''user'', [''joe'']), (''tag'', [''a'', ''b''])] ''go''] (login_form, [])
      = Inr ([RetError None, RetError None], login_form,
             [(fields' login_form)(''go'' \<mapsto> [''1'']),
              (fields' login_form)(''go'' \<mapsto> [''1''])])"
    by (simp add: recorder_def)
  from p1 r2 a2 b2 p3 show ?thesis by blast
qed

section \<open>Click never reads past the end\<close>

text \<open>
  Claim C10. After any sequence of calls on a form made by \<^verbatim>\<open>NewForm\<close>, with any sink
  and any orders of the map loops: no call has panicked, every key of \<^verbatim>\<open>fields\<close> and
  every key of \<^verbatim>\<open>buttons\<close> has a list of values that is not empty, and \<^verbatim>\<open>Click\<close> on a key of
  \<^verbatim>\<open>buttons\<close> returns: its read of element 0 is in range.
\<close>

theorem values_never_empty:
  "\<exists>rs f w'. run q Do cs (NewForm sel_Find u Parse sel, w) = Inr (rs, f, w')
     \<and> nonempty_values (fields' f) \<and> nonempty_values (buttons f)
     \<and> (\<forall>b frange w''. b \<in> dom (buttons f) \<longrightarrow> (\<exists>r. Click Do frange b f w'' = Inr r))"
proof -
  from NewForm_nonempty [of sel_Find u Parse sel] have
    "nonempty_values (fields' (NewForm sel_Find u Parse sel))"
    "nonempty_values (buttons (NewForm sel_Find u Parse sel))" by simp_all
  from run_total [OF this, of q Do cs w] obtain rs f w' where
    r: "run q Do cs (NewForm sel_Find u Parse sel, w) = Inr (rs, f, w')" and
    n: "nonempty_values (fields' f)" "nonempty_values (buttons f)" by blast
  from n(2) have
    "\<forall>b frange w''. b \<in> dom (buttons f) \<longrightarrow> (\<exists>r. Click Do frange b f w'' = Inr r)"
    by (intro allI impI Click_no_panic)
  with r n show ?thesis by blast
qed

theorem values_never_empty_witness:
  "\<exists>rs f w'. run tag_query recorder
        [CallInput ''user'' ''ann'', CallSubmit [(''go'', [''1''])] []] (login_form, [])
        = Inr (rs, f, w')
     \<and> nonempty_values (fields' f) \<and> nonempty_values (buttons f)
     \<and> ''go'' \<in> dom (buttons f) \<and> (\<exists>r. Click recorder [] ''go'' f [] = Inr r)"
proof -
  from values_never_empty [of tag_query recorder
      "[CallInput ''user'' ''ann'', CallSubmit [(''go'', [''1''])] []]"
      tag_query id Some "[login_dom]" "[]"]
  obtain rs f w' where
    r: "run tag_query recorder [CallInput ''user'' ''ann'', CallSubmit [(''go'', [''1''])] []]
        (login_form, []) = Inr (rs, f, w')" and
    n: "nonempty_values (fields' f)" "nonempty_values (buttons f)" and
    c: "\<forall>b frange w''. b \<in> dom (buttons f) \<longrightarrow> (\<exists>r. Click recorder frange b f w'' = Inr r)"
    unfolding login_form_def by blast
  from run_frame [OF r] have "buttons f = buttons login_form" by simp
  then have g: "''go'' \<in> dom (buttons f)" by (simp add: login_form_eq)
  with c have "\<exists>r. Click recorder [] ''go'' f [] = Inr r" by blast
  with r n g show ?thesis by blast
qed

end
